theory Spec2Isabelle
  imports Main "HOL-Library.Word" "HOL-Library.Sublist" "HOL-Library.AList"
    "HOL-Library.Code_Target_Nat"
begin

section \<open>Platform values used by server.js\<close>

text \<open>
  The theory embeds the chunked-upload part of \<^verbatim>\<open>src/server.js\<close>: the
  \<^verbatim>\<open>/upload-chunk\<close> handler with its upload tracker, the expiry timer and the
  periodic sweep, and the \<^verbatim>\<open>/combine-chunks\<close> handler with \<^verbatim>\<open>combineChunks\<close>
  and \<^verbatim>\<open>removeDirectory\<close>.

  What Node provides is modelled as follows.
  \<^item> A path is absolute and normalised: the list of its components below the root.
    \<^verbatim>\<open>path.join\<close> and \<^verbatim>\<open>path.resolve\<close> are the POSIX ones: the string that is
    joined is cut at every separator, empty and \<^verbatim>\<open>.\<close> segments are dropped, and
    \<^verbatim>\<open>..\<close> removes the last component (at the root it does nothing).
  \<^item> The disk is a store of regular files and a predicate of directories. Its operations
    succeed: permissions, full disks and other faults of the platform are not modelled. A file
    that is missing when it is read is the one read error.
  \<^item> A JavaScript number that comes out of \<^verbatim>\<open>parseInt\<close> is an integer or NaN.
    The integer is the mathematical value of the digits (exact up to \<open>2^53\<close>).
  \<^item> The event loop is a step function over explicit events; what one callback does between
    two suspension points is one step.
\<close>

type_synonym path = "string list"
type_synonym bytes = "8 word list"

datatype jsnum = Num int | NaN

subsection \<open>path.join and path.resolve\<close>

text \<open>The segments of a string between its separators \<^verbatim>\<open>/\<close>.\<close>

fun segments :: "string \<Rightarrow> string list" where
  "segments [] = [[]]"
| "segments (c # cs) =
     (if c = CHR ''/'' then [] # segments cs
      else (case segments cs of s # ss \<Rightarrow> (c # s) # ss | [] \<Rightarrow> [[c]]))"

text \<open>One segment applied to a normalised absolute path.\<close>

definition path_step :: "path \<Rightarrow> string \<Rightarrow> path" where
  "path_step p seg =
     (if seg = [] \<or> seg = ''.'' then p
      else if seg = ''..'' then butlast p
      else p @ [seg])"

text \<open>\<^verbatim>\<open>path.join(p, s)\<close> for an absolute normalised \<open>p\<close>; joining several strings is joining them one after the other.\<close>

definition path_join :: "path \<Rightarrow> string \<Rightarrow> path" where
  "path_join p s = foldl path_step p (segments s)"

text \<open>\<^verbatim>\<open>path.resolve(s)\<close> in working directory \<open>wd\<close>: an absolute string is normalised from the root, a relative one from the working directory.\<close>

definition path_resolve :: "path \<Rightarrow> string \<Rightarrow> path" where
  "path_resolve wd s =
     (case s of
        [] \<Rightarrow> wd
      | c # _ \<Rightarrow> if c = CHR ''/'' then path_join [] s else path_join wd s)"

subsection \<open>parseInt(s, 10) and the defaults of missing headers\<close>

definition is_space :: "char \<Rightarrow> bool" where
  "is_space c = (of_char c \<in> {9, 10, 11, 12, 13, 32, 160 :: nat})"

definition is_digit :: "char \<Rightarrow> bool" where
  "is_digit c = (48 \<le> (of_char c :: nat) \<and> (of_char c :: nat) \<le> 57)"

definition digit_val :: "char \<Rightarrow> int" where
  "digit_val c = int (of_char c) - 48"

definition digits_val :: "string \<Rightarrow> int" where
  "digits_val ds = foldl (\<lambda>acc c. 10 * acc + digit_val c) 0 ds"

text \<open>
  \<^verbatim>\<open>parseInt(s, 10)\<close>: leading white space is skipped, one sign is read, then the longest
  run of decimal digits; with no digit the result is NaN.
\<close>

definition parseInt :: "string \<Rightarrow> jsnum" where
  "parseInt s =
     (let s1 = dropWhile is_space s;
          neg = (case s1 of c # _ \<Rightarrow> c = CHR ''-'' | [] \<Rightarrow> False);
          s2 = (case s1 of c # r \<Rightarrow> if c = CHR ''-'' \<or> c = CHR ''+'' then r else s1 | [] \<Rightarrow> s1);
          ds = takeWhile is_digit s2
      in if ds = [] then NaN
         else Num (if neg then - digits_val ds else digits_val ds))"

text \<open>\<^verbatim>\<open>h || d\<close> on a header: a missing header and an empty one both give the default.\<close>

definition header_or :: "string option \<Rightarrow> string \<Rightarrow> string" where
  "header_or h d = (case h of None \<Rightarrow> d | Some s \<Rightarrow> if s = [] then d else s)"

text \<open>\<^verbatim>\<open>Date.now().toString()\<close>: the decimal digits of the clock.\<close>

fun string_of_nat :: "nat \<Rightarrow> string" where
  "string_of_nat n =
     (if n < 10 then [char_of (48 + n)]
      else string_of_nat (n div 10) @ [char_of (48 + n mod 10)])"

declare string_of_nat.simps [simp del]

definition toString :: "int \<Rightarrow> string" where
  "toString i = (if i < 0 then CHR ''-'' # string_of_nat (nat (- i)) else string_of_nat (nat i))"

text \<open>\<^verbatim>\<open>a + 1\<close>, \<^verbatim>\<open>a >= b\<close> and \<^verbatim>\<open>a < b\<close> on numbers: a comparison with NaN is false.\<close>

fun js_succ :: "jsnum \<Rightarrow> jsnum" where
  "js_succ (Num i) = Num (i + 1)"
| "js_succ NaN = NaN"

fun js_ge :: "jsnum \<Rightarrow> jsnum \<Rightarrow> bool" where
  "js_ge (Num a) (Num b) = (a \<ge> b)"
| "js_ge _ _ = False"

fun js_less :: "jsnum \<Rightarrow> jsnum \<Rightarrow> bool" where
  "js_less (Num a) (Num b) = (a < b)"
| "js_less _ _ = False"

subsection \<open>Constants of the server\<close>

definition HIGH_WATER_MARK :: nat where
  "HIGH_WATER_MARK = 2 * 1024 * 1024"

definition LOW_WATER_MARK :: nat where
  "LOW_WATER_MARK = 1024 * 1024"

definition UPLOAD_TIMEOUT :: int where
  "UPLOAD_TIMEOUT = 24 * 60 * 60 * 1000"

text \<open>
  The process: its working directory (\<^verbatim>\<open>getCurrentPath\<close>), the system's temporary
  directory, and \<^verbatim>\<open>decodeURIComponent\<close>, which throws (None) on a malformed escape.
\<close>

record platform =
  cwd :: path
  tmpdir :: path
  decodeURIComponent :: "string \<Rightarrow> string option"

definition getCurrentPath :: "platform \<Rightarrow> path" where
  "getCurrentPath P = cwd P"

definition TEMP_DIR :: "platform \<Rightarrow> path" where
  "TEMP_DIR P = path_join (tmpdir P) ''file-server-chunks''"

text \<open>
  \<^verbatim>\<open>path.join(os.tmpdir(), 'file-server-chunks', fileId)\<close> of lines 137 and 423, the
  staging directory of a file id.
\<close>

definition tempDir_of :: "platform \<Rightarrow> string \<Rightarrow> path" where
  "tempDir_of P fileId = path_join (path_join (tmpdir P) ''file-server-chunks'') fileId"

text \<open>
  \<^verbatim>\<open>path.resolve(query.path || getCurrentPath())\<close> of lines 121 and 148 (412 and 445):
  a missing or empty query parameter gives the working directory, which resolves to itself.
\<close>

definition outputDir_of :: "platform \<Rightarrow> string option \<Rightarrow> path" where
  "outputDir_of P q =
     (case q of
        None \<Rightarrow> getCurrentPath P
      | Some s \<Rightarrow> if s = [] then getCurrentPath P else path_resolve (cwd P) s)"

section \<open>The disk\<close>

record fsys =
  files :: "path \<Rightarrow> bytes option"
  dirs :: "path \<Rightarrow> bool"

definition existsSync :: "fsys \<Rightarrow> path \<Rightarrow> bool" where
  "existsSync d p = (files d p \<noteq> None \<or> dirs d p)"

text \<open>\<^verbatim>\<open>fs.mkdirSync(p, {recursive: true})\<close>: p and every ancestor of p become directories.\<close>

definition mkdirSync :: "path \<Rightarrow> fsys \<Rightarrow> fsys" where
  "mkdirSync p d = d\<lparr>dirs := (\<lambda>q. dirs d q \<or> prefix q p)\<rparr>"

text \<open>The idiom \<^verbatim>\<open>if (!fs.existsSync(p)) fs.mkdirSync(p, {recursive: true})\<close>.\<close>

definition ensure_dir :: "path \<Rightarrow> fsys \<Rightarrow> fsys" where
  "ensure_dir p d = (if \<not> existsSync d p then mkdirSync p d else d)"

text \<open>
  \<^verbatim>\<open>removeDirectory(dirPath)\<close>: when the path exists, every entry below it is visited,
  files are unlinked and directories removed bottom-up, then the directory itself is removed.
  Its net effect on the store is that nothing at or below the path is left. When the path is a
  regular file, \<^verbatim>\<open>readdirSync\<close> throws; both callers catch and log that, and the disk
  is as it was.
\<close>

definition removeDirectory :: "path \<Rightarrow> fsys \<Rightarrow> fsys" where
  "removeDirectory dirPath d =
     (if existsSync d dirPath then
        (if dirs d dirPath then
           d\<lparr>files := (\<lambda>q. if prefix dirPath q then None else files d q),
             dirs := (\<lambda>q. dirs d q \<and> \<not> prefix dirPath q)\<rparr>
         else d)
      else d)"

text \<open>
  A write stream opened with flags \<^verbatim>\<open>'w'\<close>: the file is created or truncated, and the
  stream writes at its own position. \<open>buffered\<close> counts the bytes accepted and not yet
  flushed, \<open>needDrain\<close> is set when a write reports saturation, \<open>ending\<close> once
  \<^verbatim>\<open>end()\<close> was called. \<open>autoClose\<close> is the option of that name (true unless the
  caller passes false), and \<open>closed\<close> holds once the file descriptor has been released.
\<close>

record wstream =
  spath :: path
  pos :: nat
  buffered :: nat
  needDrain :: bool
  ending :: bool
  autoClose :: bool
  closed :: bool

definition createWriteStream :: "path \<Rightarrow> bool \<Rightarrow> fsys \<Rightarrow> wstream \<times> fsys" where
  "createWriteStream p ac d =
     (\<lparr>spath = p, pos = 0, buffered = 0, needDrain = False, ending = False,
       autoClose = ac, closed = False\<rparr>,
      d\<lparr>files := (files d)(p \<mapsto> [])\<rparr>)"

text \<open>Bytes written at an offset of a file; a gap before the offset reads as zeros.\<close>

definition write_at :: "nat \<Rightarrow> bytes \<Rightarrow> bytes \<Rightarrow> bytes" where
  "write_at off new old =
     take off (old @ replicate (off - length old) 0) @ new @ drop (off + length new) old"

text \<open>
  \<^verbatim>\<open>stream.write(data)\<close>. The result is Node's \<^verbatim>\<open>state.length < highWaterMark\<close>
  after the bytes were accepted. A stream that is ending accepts nothing and returns false. A
  file that was unlinked under the stream stays absent from the store.
\<close>

definition stream_write :: "bytes \<Rightarrow> wstream \<Rightarrow> fsys \<Rightarrow> bool \<times> wstream \<times> fsys" where
  "stream_write b s d =
     (if ending s then (False, s, d)
      else
        let len = buffered s + length b;
            ok = (len < HIGH_WATER_MARK);
            s' = s\<lparr>pos := pos s + length b, buffered := len,
                    needDrain := (needDrain s \<or> \<not> ok)\<rparr>;
            d' = (case files d (spath s) of
                    None \<Rightarrow> d
                  | Some old \<Rightarrow> d\<lparr>files := (files d)(spath s \<mapsto> write_at (pos s) b old)\<rparr>)
        in (ok, s', d'))"

text \<open>
  \<^verbatim>\<open>stream.end()\<close>: no further write is accepted. A stream with \<open>autoClose\<close> releases
  its descriptor when it has finished (the model does so at once); a stream opened with
  \<^verbatim>\<open>autoClose: false\<close> keeps the descriptor open until the program closes it, which
  \<^verbatim>\<open>server.js\<close> never does.
\<close>

definition stream_end :: "wstream \<Rightarrow> wstream" where
  "stream_end s = s\<lparr>ending := True, closed := (closed s \<or> autoClose s)\<rparr>"

section \<open>The upload tracker\<close>

text \<open>
  One entry of \<^verbatim>\<open>uploadTracker\<close>. The entry is a JavaScript object: requests in flight
  keep a reference to it, so entries live in a store of objects (\<open>objs\<close> below) and the
  tracker maps a file id to an address. \<open>receivedChunks\<close> is the \<^verbatim>\<open>Set\<close> in
  insertion order, \<open>writeStream\<close> and \<open>timeout\<close> are the addresses of the stream and
  of the timer.
\<close>

record upload =
  finalPath :: path
  receivedChunks :: "jsnum list"
  writeStream :: nat
  totalChunks :: jsnum
  createdAt :: int
  timeout :: nat

text \<open>A timer set by \<^verbatim>\<open>setTimeout(cb, UPLOAD_TIMEOUT)\<close>; its callback closes over the file id.\<close>

record timer =
  t_fileId :: string
  t_armed :: int
  t_active :: bool

datatype phase = Receiving | AwaitDrain

text \<open>
  A chunk request between its headers and its answer: what the closures of the
  \<^verbatim>\<open>data\<close> and \<^verbatim>\<open>end\<close> listeners hold.
\<close>

record inflight =
  p_fileId :: string
  p_chunkIndex :: jsnum
  p_totalChunks :: jsnum
  p_upload :: nat
  p_tempDir :: path
  dataBuffer :: bytes
  p_phase :: phase

datatype response =
    MissingFileName
  | SessionNotFound bool
  | AlreadyReceived jsnum jsnum
  | ChunkReceived jsnum jsnum nat string
  | UploadComplete path
  | ServerError
  | ChunkError


record chunk_request =
  x_file_name :: "string option"
  x_chunk_index :: "string option"
  x_total_chunks :: "string option"
  x_file_id :: "string option"
  query_path :: "string option"

record server =
  disk :: fsys
  uploadTracker :: "(string \<times> nat) list"
  objs :: "upload list"
  streams :: "wstream list"
  timers :: "timer list"
  pending :: "(nat \<times> inflight) list"
  responses :: "(nat \<times> response) list"
  next_rid :: nat

text \<open>The server after the module was loaded on a disk: the temporary directory exists.\<close>

definition init_server :: "platform \<Rightarrow> fsys \<Rightarrow> server" where
  "init_server P d =
     \<lparr>disk = ensure_dir (TEMP_DIR P) d, uploadTracker = [], objs = [], streams = [],
      timers = [], pending = [], responses = [], next_rid = 0\<rparr>"

definition respond :: "nat \<Rightarrow> response \<Rightarrow> server \<Rightarrow> server" where
  "respond rid r st = st\<lparr>responses := responses st @ [(rid, r)]\<rparr>"

text \<open>\<^verbatim>\<open>set.add(x)\<close> on a Set kept in insertion order.\<close>

definition set_add :: "jsnum \<Rightarrow> jsnum list \<Rightarrow> jsnum list" where
  "set_add x xs = (if x \<in> set xs then xs else xs @ [x])"

text \<open>
  Lines 147-177 (and again 186-214), given \<open>outputDir\<close>, the value of
  \<^verbatim>\<open>path.resolve(targetPath)\<close>: the target directory is created, the final path is
  \<^verbatim>\<open>path.join(outputDir, fileName)\<close>, the write stream is opened there with flags
  \<^verbatim>\<open>'w'\<close> and \<^verbatim>\<open>autoClose: false\<close>, the timer is armed, and
  \<^verbatim>\<open>uploadTracker.set(fileId, ...)\<close> stores the new object, replacing what the id
  mapped to.
\<close>

definition start_upload :: "int \<Rightarrow> string \<Rightarrow> string \<Rightarrow> jsnum \<Rightarrow> path \<Rightarrow> server \<Rightarrow> server" where
  "start_upload now fileId fileName total_chunks outputDir st =
     (let d1 = ensure_dir outputDir (disk st);
          finalFilePath = path_join outputDir fileName;
          (ws, d2) = createWriteStream finalFilePath False d1;
          u = \<lparr>finalPath = finalFilePath, receivedChunks = [],
               writeStream = length (streams st), totalChunks = total_chunks,
               createdAt = now, timeout = length (timers st)\<rparr>
      in st\<lparr>disk := d2,
            streams := streams st @ [ws],
            timers := timers st @ [\<lparr>t_fileId = fileId, t_armed = now, t_active = True\<rparr>],
            objs := objs st @ [u],
            uploadTracker := AList.update fileId (length (objs st)) (uploadTracker st)\<rparr>)"

text \<open>
  Lines 180-240: the entry of the file id is fetched. Without an entry the request is refused
  with the restart flag; in the branch of line 184 the tracker is set again but the constant
  \<^verbatim>\<open>upload\<close> stays undefined, so line 225 throws and the \<^verbatim>\<open>catch\<close> of line 311
  answers 500. A chunk whose index is in the set is answered at once; any other request is left
  pending with its \<^verbatim>\<open>data\<close>, \<^verbatim>\<open>end\<close> and \<^verbatim>\<open>error\<close> listeners.
\<close>

definition resolve_upload ::
  "int \<Rightarrow> nat \<Rightarrow> string \<Rightarrow> string \<Rightarrow> jsnum \<Rightarrow> jsnum \<Rightarrow> path \<Rightarrow> path \<Rightarrow> server \<Rightarrow> server" where
  "resolve_upload now rid fileId fileName chunkIndex total_chunks outputDir tempDir st =
     (case map_of (uploadTracker st) fileId of
        None \<Rightarrow>
          if chunkIndex = Num 0
          then respond rid ServerError
                 (start_upload now fileId fileName total_chunks outputDir st)
          else respond rid (SessionNotFound True) st
      | Some a \<Rightarrow>
          if chunkIndex \<in> set (receivedChunks (objs st ! a))
          then respond rid (AlreadyReceived (js_succ chunkIndex) total_chunks) st
          else st\<lparr>pending := pending st @
                 [(rid, \<lparr>p_fileId = fileId, p_chunkIndex = chunkIndex,
                         p_totalChunks = total_chunks, p_upload = a,
                         p_tempDir = tempDir, dataBuffer = [],
                         p_phase = Receiving\<rparr>)]\<rparr>)"

text \<open>
  The synchronous part of the \<^verbatim>\<open>/upload-chunk\<close> handler (lines 110-240 and the
  \<^verbatim>\<open>catch\<close> of line 311), run when the headers of a request have arrived: the headers
  are read with their defaults, the file name is checked, the upload directory and the
  directory of the file id are created, and chunk 0 starts an upload.
\<close>

definition upload_chunk_request :: "platform \<Rightarrow> int \<Rightarrow> chunk_request \<Rightarrow> server \<Rightarrow> server" where
  "upload_chunk_request P now req st0 =
     (let rid = next_rid st0;
          st = st0\<lparr>next_rid := rid + 1\<rparr>
      in case decodeURIComponent P (header_or (x_file_name req) []) of
           None \<Rightarrow> respond rid ServerError st
         | Some fileName \<Rightarrow>
            let chunkIndex = parseInt (header_or (x_chunk_index req) ''0'');
                total_chunks = parseInt (header_or (x_total_chunks req) ''1'');
                fileId = header_or (x_file_id req) (toString now);
                outputDir = outputDir_of P (query_path req)
            in if fileName = [] then respond rid MissingFileName st
               else
                 let uploadDir = path_join (cwd P) ''uploads'';
                     tempDir = tempDir_of P fileId;
                     st1 = st\<lparr>disk := ensure_dir tempDir (ensure_dir uploadDir (disk st))\<rparr>;
                     st2 = (if chunkIndex = Num 0
                            then start_upload now fileId fileName total_chunks outputDir st1
                            else st1)
                 in resolve_upload now rid fileId fileName chunkIndex total_chunks outputDir
                      tempDir st2)"

text \<open>The \<^verbatim>\<open>data\<close> listener of line 237: \<^verbatim>\<open>Buffer.concat([dataBuffer, chunk])\<close>.\<close>

definition on_data :: "nat \<Rightarrow> bytes \<Rightarrow> server \<Rightarrow> server" where
  "on_data rid chunk st =
     (case map_of (pending st) rid of
        None \<Rightarrow> st
      | Some p \<Rightarrow>
          if p_phase p = Receiving
          then st\<lparr>pending := AList.update rid (p\<lparr>dataBuffer := dataBuffer p @ chunk\<rparr>) (pending st)\<rparr>
          else st)"

text \<open>
  Lines 253-294, what the \<^verbatim>\<open>end\<close> listener does once the write was accepted or the
  drain was signalled: the chunk is marked received, and the upload is finished when the size
  of the set equals \<^verbatim>\<open>upload.totalChunks\<close>.
\<close>

definition finish_chunk :: "nat \<Rightarrow> server \<Rightarrow> server" where
  "finish_chunk rid st =
     (case map_of (pending st) rid of
        None \<Rightarrow> st
      | Some p \<Rightarrow>
          let a = p_upload p;
              u = (objs st ! a)\<lparr>receivedChunks := set_add (p_chunkIndex p) (receivedChunks (objs st ! a))\<rparr>;
              st1 = st\<lparr>objs := (objs st)[a := u], pending := AList.delete rid (pending st)\<rparr>
          in if Num (int (length (receivedChunks u))) = totalChunks u
             then
               respond rid (UploadComplete (finalPath u))
                 (st1\<lparr>streams := (streams st1)[writeStream u := stream_end (streams st1 ! writeStream u)],
                      timers := (timers st1)[timeout u := (timers st1 ! timeout u)\<lparr>t_active := False\<rparr>],
                      uploadTracker := AList.delete (p_fileId p) (uploadTracker st1),
                      disk := removeDirectory (p_tempDir p) (disk st1)\<rparr>)
             else
               respond rid
                 (ChunkReceived (js_succ (p_chunkIndex p)) (p_totalChunks p)
                    (length (receivedChunks u)) (p_fileId p)) st1)"

text \<open>
  The \<^verbatim>\<open>end\<close> listener up to its \<^verbatim>\<open>await\<close> (lines 242-251): the buffer is written to the
  stream of the upload; when \<^verbatim>\<open>write\<close> returns false the request waits for the
  \<^verbatim>\<open>drain\<close> event (it moves behind the requests already waiting), otherwise it goes on.
\<close>

definition on_end :: "nat \<Rightarrow> server \<Rightarrow> server" where
  "on_end rid st =
     (case map_of (pending st) rid of
        None \<Rightarrow> st
      | Some p \<Rightarrow>
          if p_phase p \<noteq> Receiving then st
          else
            let sid = writeStream (objs st ! p_upload p);
                (canContinue, s', d') = stream_write (dataBuffer p) (streams st ! sid) (disk st);
                st1 = st\<lparr>streams := (streams st)[sid := s'], disk := d'\<rparr>
            in if \<not> canContinue
               then st1\<lparr>pending := AList.delete rid (pending st1) @ [(rid, p\<lparr>p_phase := AwaitDrain\<rparr>)]\<rparr>
               else finish_chunk rid st1)"

text \<open>The \<^verbatim>\<open>error\<close> listener of the request (line 303).\<close>

definition on_error :: "nat \<Rightarrow> server \<Rightarrow> server" where
  "on_error rid st =
     (case map_of (pending st) rid of
        None \<Rightarrow> st
      | Some p \<Rightarrow>
          if p_phase p = Receiving
          then respond rid ChunkError (st\<lparr>pending := AList.delete rid (pending st)\<rparr>)
          else st)"

text \<open>
  The requests that wait for the \<^verbatim>\<open>drain\<close> event of a stream, in the order in which
  they started to wait.
\<close>

definition drain_waiters :: "nat \<Rightarrow> server \<Rightarrow> nat list" where
  "drain_waiters sid st =
     map fst (filter (\<lambda>(rid, p). p_phase p = AwaitDrain \<and> writeStream (objs st ! p_upload p) = sid)
                (pending st))"

text \<open>
  The stream has flushed its buffer. Node emits \<^verbatim>\<open>drain\<close> when a write had reported
  saturation and the stream is not ending; every waiting request then resumes after its
  \<^verbatim>\<open>await\<close>.
\<close>

definition on_flush :: "nat \<Rightarrow> server \<Rightarrow> server" where
  "on_flush sid st =
     (if sid < length (streams st) then
        let s = streams st ! sid;
            emit = (needDrain s \<and> \<not> ending s);
            st1 = st\<lparr>streams := (streams st)[sid := s\<lparr>buffered := 0,
                        needDrain := (needDrain s \<and> \<not> emit)\<rparr>]\<rparr>
        in if emit then fold finish_chunk (drain_waiters sid st1) st1 else st1
      else st)"

text \<open>
  The callback of the timer of lines 167-174: it looks the file id up again and ends the
  stream of the entry it finds, then deletes the id. It runs once, not before the delay.
\<close>

definition on_timeout :: "nat \<Rightarrow> int \<Rightarrow> server \<Rightarrow> server" where
  "on_timeout tid now st =
     (if tid < length (timers st) \<and> t_active (timers st ! tid)
         \<and> t_armed (timers st ! tid) + UPLOAD_TIMEOUT \<le> now
      then
        let t = timers st ! tid;
            st1 = st\<lparr>timers := (timers st)[tid := t\<lparr>t_active := False\<rparr>]\<rparr>;
            st2 = (case map_of (uploadTracker st1) (t_fileId t) of
                     None \<Rightarrow> st1
                   | Some a \<Rightarrow>
                       let sid = writeStream (objs st1 ! a)
                       in st1\<lparr>streams := (streams st1)[sid := stream_end (streams st1 ! sid)]\<rparr>)
        in st2\<lparr>uploadTracker := AList.delete (t_fileId t) (uploadTracker st2)\<rparr>
      else st)"

text \<open>One round of the loop of lines 565-575 over an entry of the tracker.\<close>

definition sweep_entry :: "int \<Rightarrow> server \<Rightarrow> string \<times> nat \<Rightarrow> server" where
  "sweep_entry now st e =
     (let fileId = fst e; u = objs st ! snd e
      in if now - createdAt u > UPLOAD_TIMEOUT
         then st\<lparr>streams := (streams st)[writeStream u := stream_end (streams st ! writeStream u)],
                 timers := (timers st)[timeout u := (timers st ! timeout u)\<lparr>t_active := False\<rparr>],
                 uploadTracker := AList.delete fileId (uploadTracker st)\<rparr>
         else st)"

text \<open>The hourly sweep of lines 563-576.\<close>

definition sweep :: "int \<Rightarrow> server \<Rightarrow> server" where
  "sweep now st = foldl (sweep_entry now) st (uploadTracker st)"

subsection \<open>Events and runs\<close>

datatype event =
    ChunkHeaders int chunk_request
  | ChunkData nat bytes
  | ChunkEnd nat
  | ChunkFailed nat
  | Flushed nat
  | TimerFired nat int
  | SweepTick int

fun step :: "platform \<Rightarrow> server \<Rightarrow> event \<Rightarrow> server" where
  "step P st (ChunkHeaders now req) = upload_chunk_request P now req st"
| "step P st (ChunkData rid b) = on_data rid b st"
| "step P st (ChunkEnd rid) = on_end rid st"
| "step P st (ChunkFailed rid) = on_error rid st"
| "step P st (Flushed sid) = on_flush sid st"
| "step P st (TimerFired tid now) = on_timeout tid now st"
| "step P st (SweepTick now) = sweep now st"

definition run :: "platform \<Rightarrow> server \<Rightarrow> event list \<Rightarrow> server" where
  "run P st evs = foldl (step P) st evs"


text \<open>The answers a request has got so far.\<close>

definition answers :: "server \<Rightarrow> nat \<Rightarrow> response list" where
  "answers st rid = map snd (filter (\<lambda>(r, _). r = rid) (responses st))"

section \<open>Assembling stored chunks: /combine-chunks\<close>

record combine_request =
  c_file_name :: "string option"
  c_file_id :: "string option"
  c_total_chunks :: "string option"
  c_query_path :: "string option"

datatype combine_response =
    MissingFileInformation
  | StagingNotFound
  | MissingChunk nat
  | Assembled path
  | CombineFailed

fun combine_status :: "combine_response \<Rightarrow> nat" where
  "combine_status MissingFileInformation = 400"
| "combine_status StagingNotFound = 404"
| "combine_status (MissingChunk _) = 400"
| "combine_status (Assembled _) = 200"
| "combine_status CombineFailed = 500"

text \<open>What the handler does to the disk, in the order in which it does it.\<close>

datatype io_op =
    OpOpen path
  | OpRead path bytes
  | OpAppend path bytes
  | OpEnd path
  | OpRemoveDirectory path

text \<open>The name \<^verbatim>\<open>`chunk-${i}`\<close> of a stored chunk.\<close>

definition chunk_name :: "nat \<Rightarrow> string" where
  "chunk_name i = ''chunk-'' @ string_of_nat i"

text \<open>
  The loop of lines 433-442, from index \<open>i\<close> on: the first index below the declared count
  whose chunk does not exist, if there is one.
\<close>

function verify_chunks :: "fsys \<Rightarrow> path \<Rightarrow> jsnum \<Rightarrow> nat \<Rightarrow> nat option" where
  "verify_chunks d tempDir total_chunks i =
     (if js_less (Num (int i)) total_chunks then
        (if \<not> existsSync d (path_join tempDir (chunk_name i)) then Some i
         else verify_chunks d tempDir total_chunks (i + 1))
      else None)"
  by pat_completeness auto
termination
proof (relation "measure (\<lambda>(d, t, n, i). case n of Num k \<Rightarrow> nat (k - int i) | NaN \<Rightarrow> 0)")
  show "wf (measure (\<lambda>(d, t, n, i). case n of Num k \<Rightarrow> nat (k - int i) | NaN \<Rightarrow> 0))"
    by simp
next
  fix d :: fsys and tempDir :: path and total_chunks :: jsnum and i :: nat
  assume "js_less (Num (int i)) total_chunks"
  then show "((d, tempDir, total_chunks, i + 1), (d, tempDir, total_chunks, i))
      \<in> measure (\<lambda>(d, t, n, i). case n of Num k \<Rightarrow> nat (k - int i) | NaN \<Rightarrow> 0)"
    by (cases total_chunks) auto
qed

text \<open>
  \<^verbatim>\<open>processNextChunk\<close> of \<^verbatim>\<open>combineChunks\<close> (lines 605-632). When the counter has
  reached the count the output is ended and the promise resolves (True). Otherwise the chunk is
  read and piped to the output with \<^verbatim>\<open>end: false\<close>, and the next chunk follows when this
  one has been read; a chunk that cannot be read rejects the promise (False). With a count that
  is NaN the counter never reaches it, so the function is partial.
\<close>

partial_function (option) processNextChunk ::
  "path \<Rightarrow> jsnum \<Rightarrow> nat \<Rightarrow> wstream \<Rightarrow> fsys \<Rightarrow> io_op list
     \<Rightarrow> (bool \<times> wstream \<times> fsys \<times> io_op list) option" where
  "processNextChunk chunkDir total_chunks currentChunk out d ops =
     (if js_ge (Num (int currentChunk)) total_chunks
      then Some (True, stream_end out, d, ops @ [OpEnd (spath out)])
      else
        let chunkPath = path_join chunkDir (chunk_name currentChunk)
        in if files d chunkPath = None then Some (False, out, d, ops)
           else
             let b = the (files d chunkPath);
                 w = stream_write b out d
             in processNextChunk chunkDir total_chunks (currentChunk + 1) (fst (snd w)) (snd (snd w))
                  (ops @ [OpRead chunkPath b, OpAppend (spath out) b]))"

definition combineChunks ::
  "path \<Rightarrow> jsnum \<Rightarrow> wstream \<Rightarrow> fsys \<Rightarrow> io_op list
     \<Rightarrow> (bool \<times> wstream \<times> fsys \<times> io_op list) option" where
  "combineChunks chunkDir total_chunks outputStream d ops =
     processNextChunk chunkDir total_chunks 0 outputStream d ops"

text \<open>
  The \<^verbatim>\<open>/combine-chunks\<close> handler (lines 407-492): the answer, the disk afterwards,
  the output stream as the handler leaves it (None when none was opened) and the operations
  performed; the whole result is None when \<^verbatim>\<open>combineChunks\<close> never settles. The output
  stream is opened with \<^verbatim>\<open>WRITE_STREAM_OPTIONS\<close>, which leave \<open>autoClose\<close> at its
  default. The \<^verbatim>\<open>'error'\<close> listener of lines 457-464 has no step here: it runs only when
  a file operation fails, and those of this model do not.
\<close>

definition combine_chunks_request ::
  "platform \<Rightarrow> combine_request \<Rightarrow> fsys
     \<Rightarrow> (combine_response \<times> fsys \<times> wstream option \<times> io_op list) option" where
  "combine_chunks_request P req d =
     (let fileName = header_or (c_file_name req) [];
          fileId = header_or (c_file_id req) [];
          total_chunks = parseInt (header_or (c_total_chunks req) ''0'');
          targetPath = c_query_path req
      in if fileName = [] \<or> fileId = [] \<or> total_chunks = Num 0
         then Some (MissingFileInformation, d, None, [])
         else
           let tempDir = tempDir_of P fileId
           in if \<not> existsSync d tempDir then Some (StagingNotFound, d, None, [])
              else
                case verify_chunks d tempDir total_chunks 0 of
                  Some i \<Rightarrow> Some (MissingChunk i, d, None, [])
                | None \<Rightarrow>
                    let outputDir = outputDir_of P targetPath;
                        d1 = ensure_dir outputDir d;
                        finalPath = path_join outputDir fileName;
                        (outputStream, d2) = createWriteStream finalPath True d1
                    in case combineChunks tempDir total_chunks outputStream d2 [OpOpen finalPath] of
                         None \<Rightarrow> None
                       | Some (resolved, out', d3, ops) \<Rightarrow>
                           if resolved
                           then Some (Assembled finalPath, removeDirectory tempDir d3, Some out',
                                      ops @ [OpRemoveDirectory tempDir])
                           else Some (CombineFailed, d3, Some out', ops))"

section \<open>Invariants of the server\<close>

text \<open>Every address held by the tracker, by a stored upload or by a pending request is allocated.\<close>

definition refs_ok :: "server \<Rightarrow> bool" where
  "refs_ok st =
     ((\<forall>k a. map_of (uploadTracker st) k = Some a \<longrightarrow> a < length (objs st)) \<and>
      (\<forall>a. a < length (objs st) \<longrightarrow>
         writeStream (objs st ! a) < length (streams st) \<and> timeout (objs st ! a) < length (timers st)) \<and>
      (\<forall>r p. map_of (pending st) r = Some p \<longrightarrow> p_upload p < length (objs st)))"

text \<open>A pending request has got no answer yet, and request ids are handed out in order.\<close>

definition rids_ok :: "server \<Rightarrow> bool" where
  "rids_ok st =
     ((\<forall>r p. map_of (pending st) r = Some p \<longrightarrow> r < next_rid st \<and> answers st r = []) \<and>
      (\<forall>r. next_rid st \<le> r \<longrightarrow> answers st r = []))"

text \<open>The tracker has one entry per file id, no upload is tracked under two ids, and a pending request whose upload is tracked is tracked under the file id of the request.\<close>

definition keys_ok :: "server \<Rightarrow> bool" where
  "keys_ok st =
     (distinct (map fst (uploadTracker st)) \<and>
      (\<forall>k k' a. map_of (uploadTracker st) k = Some a \<longrightarrow> map_of (uploadTracker st) k' = Some a \<longrightarrow> k = k') \<and>
      (\<forall>r p k. map_of (pending st) r = Some p \<longrightarrow> map_of (uploadTracker st) k = Some (p_upload p)
          \<longrightarrow> k = p_fileId p))"

text \<open>A tracked upload whose declared count is at least 1 has received fewer chunks than that count.\<close>

definition sizes_ok :: "server \<Rightarrow> bool" where
  "sizes_ok st =
     (\<forall>k a n. map_of (uploadTracker st) k = Some a \<longrightarrow> totalChunks (objs st ! a) = Num n \<longrightarrow> 1 \<le> n
        \<longrightarrow> int (length (receivedChunks (objs st ! a))) < n)"

text \<open>The four together.\<close>

definition wf_core :: "server \<Rightarrow> bool" where
  "wf_core st = (refs_ok st \<and> rids_ok st \<and> keys_ok st \<and> sizes_ok st)"


text \<open>The fields of an upload that are set once.\<close>

definition same_upload :: "upload \<Rightarrow> upload \<Rightarrow> bool" where
  "same_upload u u' = (finalPath u' = finalPath u \<and> writeStream u' = writeStream u \<and>
      totalChunks u' = totalChunks u \<and> createdAt u' = createdAt u \<and> timeout u' = timeout u)"

text \<open>The fields of a pending request that are set once.\<close>

definition same_request :: "inflight \<Rightarrow> inflight \<Rightarrow> bool" where
  "same_request p p' = (p_fileId p' = p_fileId p \<and> p_chunkIndex p' = p_chunkIndex p \<and>
      p_totalChunks p' = p_totalChunks p \<and> p_upload p' = p_upload p \<and> p_tempDir p' = p_tempDir p)"

text \<open>What a step that starts no upload and accepts no request may change: tracker entries can only go away, the fixed fields of uploads and requests stay, and a request that is still pending has got no new answer.\<close>

definition frame :: "server \<Rightarrow> server \<Rightarrow> bool" where
  "frame st st' =
     ((\<forall>k a. map_of (uploadTracker st') k = Some a \<longrightarrow> map_of (uploadTracker st) k = Some a) \<and>
      (distinct (map fst (uploadTracker st)) \<longrightarrow> distinct (map fst (uploadTracker st'))) \<and>
      length (objs st') = length (objs st) \<and>
      (\<forall>a. a < length (objs st) \<longrightarrow> same_upload (objs st ! a) (objs st' ! a)) \<and>
      length (streams st') = length (streams st) \<and>
      length (timers st') = length (timers st) \<and>
      (\<forall>r p'. map_of (pending st') r = Some p' \<longrightarrow>
          (\<exists>p. map_of (pending st) r = Some p \<and> same_request p p') \<and> answers st' r = answers st r) \<and>
      next_rid st' = next_rid st \<and>
      (\<forall>r. next_rid st \<le> r \<longrightarrow> answers st' r = answers st r))"

text \<open>The test of line 260 for a pending request, before its chunk is marked received.\<close>

definition finished :: "server \<Rightarrow> inflight \<Rightarrow> bool" where
  "finished st p = (Num (int (length (set_add (p_chunkIndex p) (receivedChunks (objs st ! p_upload p)))))
      = totalChunks (objs st ! p_upload p))"

text \<open>The state after the write of line 245.\<close>

definition written :: "nat \<Rightarrow> inflight \<Rightarrow> server \<Rightarrow> server" where
  "written rid p st =
     (let sid = writeStream (objs st ! p_upload p);
          w = stream_write (dataBuffer p) (streams st ! sid) (disk st)
      in st\<lparr>streams := (streams st)[sid := fst (snd w)], disk := snd (snd w)\<rparr>)"

text \<open>The result of the write of line 245.\<close>

definition can_continue :: "inflight \<Rightarrow> server \<Rightarrow> bool" where
  "can_continue p st =
     fst (stream_write (dataBuffer p) (streams st ! writeStream (objs st ! p_upload p)) (disk st))"

text \<open>A request id that was handed out and has neither an answer nor a pending request.\<close>

definition fresh :: "nat \<Rightarrow> server \<Rightarrow> bool" where
  "fresh rid st = (map_of (pending st) rid = None \<and> rid < next_rid st \<and> answers st rid = [])"

section \<open>Concrete inputs and the predicates of the theorems\<close>

text \<open>A process, an empty disk, and requests, for the closed instances below.\<close>

definition ex_platform :: platform where
  "ex_platform = \<lparr>cwd = [''srv''], tmpdir = [''tmp''], decodeURIComponent = Some\<rparr>"

definition ex_disk :: fsys where
  "ex_disk = \<lparr>files = (\<lambda>q. None), dirs = (\<lambda>q. q = [])\<rparr>"

definition ex_chunk :: "string \<Rightarrow> string \<Rightarrow> string \<Rightarrow> chunk_request" where
  "ex_chunk i n fid =
     \<lparr>x_file_name = Some ''f.bin'', x_chunk_index = Some i, x_total_chunks = Some n,
      x_file_id = Some fid, query_path = Some ''/out''\<rparr>"

definition ex_server :: server where
  "ex_server = init_server ex_platform ex_disk"


definition ex_staged :: fsys where
  "ex_staged =
     \<lparr>files = (\<lambda>q. if q = [''tmp'', ''file-server-chunks'', ''A'', ''chunk-0''] then Some [1, 2]
                   else if q = [''tmp'', ''file-server-chunks'', ''A'', ''chunk-1''] then Some [3]
                   else if q = [''tmp'', ''file-server-chunks'', ''A'', ''chunk-3''] then Some [5]
                   else None),
      dirs = (\<lambda>q. prefix q [''tmp'', ''file-server-chunks'', ''A''])\<rparr>"

definition ex_combine :: "string \<Rightarrow> combine_request" where
  "ex_combine n = \<lparr>c_file_name = Some ''f.bin'', c_file_id = Some ''A'', c_total_chunks = Some n,
      c_query_path = Some ''/out''\<rparr>"

text \<open>The server after chunks 0 and 1 of an upload of three chunks were written.\<close>

definition ex_after_two :: server where
  "ex_after_two = run ex_platform ex_server
     [ChunkHeaders 0 (ex_chunk ''0'' ''3'' ''A''), ChunkData 0 [1, 2], ChunkEnd 0,
      ChunkHeaders 1 (ex_chunk ''1'' ''3'' ''A''), ChunkData 1 [3], ChunkEnd 1]"
















section \<open>Basic facts\<close>


lemma segments_no_sep: "CHR ''/'' \<notin> set s \<Longrightarrow> segments s = [s]"
  by (induction s) auto

lemma path_join_name:
  "CHR ''/'' \<notin> set s \<Longrightarrow> s \<noteq> [] \<Longrightarrow> s \<noteq> ''.'' \<Longrightarrow> s \<noteq> ''..'' \<Longrightarrow> path_join p s = p @ [s]"
  by (simp add: path_join_def segments_no_sep path_step_def)


lemma tempDir_of_name:
  "CHR ''/'' \<notin> set s \<Longrightarrow> s \<noteq> [] \<Longrightarrow> s \<noteq> ''.'' \<Longrightarrow> s \<noteq> ''..'' \<Longrightarrow>
     tempDir_of P s = tmpdir P @ [''file-server-chunks'', s]"
  by (simp add: tempDir_of_def path_join_name)

lemma string_of_nat_no_sep: "CHR ''/'' \<notin> set (string_of_nat n)"
proof (induction n rule: string_of_nat.induct)
  case (1 n)
  have d: "CHR ''/'' \<noteq> char_of (48 + k)" if "k < 10" for k :: nat
  proof
    assume "CHR ''/'' = char_of (48 + k)"
    then have "of_char (char_of (48 + k)) = (of_char CHR ''/'' :: nat)" by simp
    then show False using that by simp
  qed
  show ?case
    using 1 d [of n] d [of "n mod 10"]
    by (subst string_of_nat.simps) (simp del: of_nat_add)
qed

lemma path_join_chunk_name [simp]: "path_join p (chunk_name i) = p @ [chunk_name i]"
  by (rule path_join_name) (simp_all add: chunk_name_def string_of_nat_no_sep)

lemma ex_paths:
  "tempDir_of P ''A'' = tmpdir P @ [''file-server-chunks'', ''A'']"
  "outputDir_of P (Some ''/out'') = [''out'']"
  "path_join p ''f.bin'' = p @ [''f.bin'']"
  "path_join p ''uploads'' = p @ [''uploads'']"
  by (simp_all add: tempDir_of_name path_join_name outputDir_of_def path_resolve_def
      path_join_def path_step_def)




lemmas parse_defs = parseInt_def is_space_def is_digit_def digits_val_def digit_val_def header_or_def




lemma files_ensure_dir: "files (ensure_dir p d) = files d"
  by (simp add: ensure_dir_def mkdirSync_def)


section \<open>The invariant is preserved\<close>

lemma frame_refl: "frame st st"
  by (simp add: frame_def same_upload_def same_request_def)

lemma frame_tracker: "frame st st' \<Longrightarrow> map_of (uploadTracker st') k = Some a \<Longrightarrow> map_of (uploadTracker st) k = Some a"
  by (simp add: frame_def)

lemma frame_distinct: "frame st st' \<Longrightarrow> distinct (map fst (uploadTracker st)) \<Longrightarrow> distinct (map fst (uploadTracker st'))"
  by (simp add: frame_def)

lemma frame_lengths: "frame st st' \<Longrightarrow> length (objs st') = length (objs st) \<and>
    length (streams st') = length (streams st) \<and> length (timers st') = length (timers st) \<and> next_rid st' = next_rid st"
  by (simp add: frame_def)

lemma frame_upload: "frame st st' \<Longrightarrow> a < length (objs st) \<Longrightarrow> same_upload (objs st ! a) (objs st' ! a)"
  by (simp add: frame_def)

lemma frame_pending: "frame st st' \<Longrightarrow> map_of (pending st') r = Some p' \<Longrightarrow>
    \<exists>p. map_of (pending st) r = Some p \<and> same_request p p'"
  by (simp add: frame_def)

lemma frame_answers_pending: "frame st st' \<Longrightarrow> map_of (pending st') r = Some p' \<Longrightarrow> answers st' r = answers st r"
  by (simp add: frame_def)

lemma frame_answers_new: "frame st st' \<Longrightarrow> next_rid st \<le> r \<Longrightarrow> answers st' r = answers st r"
  by (simp add: frame_def)

lemma same_upload_trans: "same_upload u u' \<Longrightarrow> same_upload u' u'' \<Longrightarrow> same_upload u u''"
  by (simp add: same_upload_def)

lemma same_request_trans: "same_request u u' \<Longrightarrow> same_request u' u'' \<Longrightarrow> same_request u u''"
  by (simp add: same_request_def)

lemma frame_trans:
  assumes f: "frame st st'" and g: "frame st' st''"
  shows "frame st st''"
proof -
  note lf = frame_lengths [OF f] and lg = frame_lengths [OF g]
  have 1: "\<forall>k a. map_of (uploadTracker st'') k = Some a \<longrightarrow> map_of (uploadTracker st) k = Some a"
    using frame_tracker [OF f] frame_tracker [OF g] by blast
  have 2: "distinct (map fst (uploadTracker st)) \<longrightarrow> distinct (map fst (uploadTracker st''))"
    using frame_distinct [OF f] frame_distinct [OF g] by blast
  have 3: "\<forall>a. a < length (objs st) \<longrightarrow> same_upload (objs st ! a) (objs st'' ! a)"
    using frame_upload [OF f] frame_upload [OF g] lf same_upload_trans by metis
  have 4: "\<forall>r p'. map_of (pending st'') r = Some p' \<longrightarrow>
          (\<exists>p. map_of (pending st) r = Some p \<and> same_request p p') \<and> answers st'' r = answers st r"
  proof (intro allI impI)
    fix r p'' assume a: "map_of (pending st'') r = Some p''"
    from frame_pending [OF g a] obtain p' where p': "map_of (pending st') r = Some p'" "same_request p' p''"
      by blast
    from frame_pending [OF f p'(1)] obtain p where p: "map_of (pending st) r = Some p" "same_request p p'"
      by blast
    have "answers st'' r = answers st r"
      using frame_answers_pending [OF g a] frame_answers_pending [OF f p'(1)] by simp
    then show "(\<exists>p. map_of (pending st) r = Some p \<and> same_request p p'') \<and> answers st'' r = answers st r"
      using p p'(2) same_request_trans by blast
  qed
  have 5: "\<forall>r. next_rid st \<le> r \<longrightarrow> answers st'' r = answers st r"
    using frame_answers_new [OF f] frame_answers_new [OF g] lf by simp
  show ?thesis
    unfolding frame_def using 1 2 3 4 5 lf lg by simp
qed

lemma refs_ok_frame:
  assumes r: "refs_ok st" and f: "frame st st'"
  shows "refs_ok st'"
proof -
  note lf = frame_lengths [OF f]
  have 1: "\<forall>k a. map_of (uploadTracker st') k = Some a \<longrightarrow> a < length (objs st')"
    using r frame_tracker [OF f] lf by (auto simp: refs_ok_def)
  have 2: "\<forall>a. a < length (objs st') \<longrightarrow>
         writeStream (objs st' ! a) < length (streams st') \<and> timeout (objs st' ! a) < length (timers st')"
    using r frame_upload [OF f] lf by (simp add: refs_ok_def same_upload_def)
  have 3: "\<forall>r p. map_of (pending st') r = Some p \<longrightarrow> p_upload p < length (objs st')"
  proof (intro allI impI)
    fix q p' assume a: "map_of (pending st') q = Some p'"
    from frame_pending [OF f a] obtain p where "map_of (pending st) q = Some p" "same_request p p'"
      by blast
    then show "p_upload p' < length (objs st')"
      using r lf by (simp add: refs_ok_def same_request_def)
  qed
  show ?thesis unfolding refs_ok_def using 1 2 3 by simp
qed

lemma rids_ok_frame:
  assumes r: "rids_ok st" and f: "frame st st'"
  shows "rids_ok st'"
proof -
  note lf = frame_lengths [OF f]
  have 1: "\<forall>q p. map_of (pending st') q = Some p \<longrightarrow> q < next_rid st' \<and> answers st' q = []"
  proof (intro allI impI)
    fix q p' assume a: "map_of (pending st') q = Some p'"
    from frame_pending [OF f a] obtain p where "map_of (pending st) q = Some p"
      by blast
    then show "q < next_rid st' \<and> answers st' q = []"
      using r lf frame_answers_pending [OF f a] by (simp add: rids_ok_def)
  qed
  have 2: "\<forall>q. next_rid st' \<le> q \<longrightarrow> answers st' q = []"
    using r lf frame_answers_new [OF f] by (simp add: rids_ok_def)
  show ?thesis unfolding rids_ok_def using 1 2 by simp
qed

lemma keys_ok_frame:
  assumes r: "keys_ok st" and f: "frame st st'"
  shows "keys_ok st'"
proof -
  have 1: "distinct (map fst (uploadTracker st'))"
    using r frame_distinct [OF f] by (simp add: keys_ok_def)
  have 2: "\<forall>k k' a. map_of (uploadTracker st') k = Some a \<longrightarrow> map_of (uploadTracker st') k' = Some a \<longrightarrow> k = k'"
    using r frame_tracker [OF f] unfolding keys_ok_def by blast
  have 3: "\<forall>q p k. map_of (pending st') q = Some p \<longrightarrow> map_of (uploadTracker st') k = Some (p_upload p)
          \<longrightarrow> k = p_fileId p"
  proof (intro allI impI)
    fix q p' k assume a: "map_of (pending st') q = Some p'" and b: "map_of (uploadTracker st') k = Some (p_upload p')"
    from frame_pending [OF f a] obtain p where p: "map_of (pending st) q = Some p" "same_request p p'"
      by blast
    have "map_of (uploadTracker st) k = Some (p_upload p)"
      using frame_tracker [OF f b] p(2) by (simp add: same_request_def)
    then have "k = p_fileId p" using r p(1) unfolding keys_ok_def by blast
    then show "k = p_fileId p'" using p(2) by (simp add: same_request_def)
  qed
  show ?thesis unfolding keys_ok_def using 1 2 3 by simp
qed

lemma sizes_ok_frame:
  assumes r: "sizes_ok st" and f: "frame st st'"
    and k: "\<And>k a. map_of (uploadTracker st') k = Some a \<Longrightarrow> a < length (objs st) \<Longrightarrow>
               length (receivedChunks (objs st' ! a)) = length (receivedChunks (objs st ! a))"
    and w: "refs_ok st"
  shows "sizes_ok st'"
  unfolding sizes_ok_def
proof (intro allI impI)
  fix k a n assume a: "map_of (uploadTracker st') k = Some a" and b: "totalChunks (objs st' ! a) = Num n" and c: "1 \<le> n"
  have t: "map_of (uploadTracker st) k = Some a" using frame_tracker [OF f a] .
  then have l: "a < length (objs st)" using w by (simp add: refs_ok_def)
  have "totalChunks (objs st ! a) = Num n" using frame_upload [OF f l] b by (simp add: same_upload_def)
  then have "int (length (receivedChunks (objs st ! a))) < n" using r t c unfolding sizes_ok_def by blast
  then show "int (length (receivedChunks (objs st' ! a))) < n" using k [OF a l] by simp
qed

lemma map_of_delete_Some: "map_of (AList.delete k al) k' = Some v \<longleftrightarrow> k' \<noteq> k \<and> map_of al k' = Some v"
  by (simp add: delete_conv')

lemma map_of_update_Some:
  "map_of (AList.update k v al) k' = Some w \<longleftrightarrow> (if k' = k then w = v else map_of al k' = Some w)"
  by (auto simp: update_conv')

lemma map_of_snoc_Some: "map_of (al @ [(k, v)]) k' = Some w \<longleftrightarrow>
    (map_of al k' = Some w \<or> (map_of al k' = None \<and> k' = k \<and> w = v))"
  by (auto simp add: map_add_def split: option.splits)

lemma answers_append: "answers (st\<lparr>responses := responses st @ [(rid, r)]\<rparr>) q = answers st q @ (if q = rid then [r] else [])"
  by (simp add: answers_def)

lemma answers_cong: "responses st' = responses st \<Longrightarrow> answers st' q = answers st q"
  by (simp add: answers_def)

lemma finish_chunk_fields:
  assumes "map_of (pending st) rid = Some p"
  shows "objs (finish_chunk rid st) = (objs st)[p_upload p := (objs st ! p_upload p)\<lparr>receivedChunks :=
            set_add (p_chunkIndex p) (receivedChunks (objs st ! p_upload p))\<rparr>]"
    and "pending (finish_chunk rid st) = AList.delete rid (pending st)"
    and "length (streams (finish_chunk rid st)) = length (streams st)"
    and "length (timers (finish_chunk rid st)) = length (timers st)"
    and "next_rid (finish_chunk rid st) = next_rid st"
    and "uploadTracker (finish_chunk rid st) =
           (if finished st p then AList.delete (p_fileId p) (uploadTracker st) else uploadTracker st)"
    and "responses (finish_chunk rid st) = responses st @ [(rid,
           if finished st p then UploadComplete (finalPath (objs st ! p_upload p))
           else ChunkReceived (js_succ (p_chunkIndex p)) (p_totalChunks p)
                  (length (set_add (p_chunkIndex p) (receivedChunks (objs st ! p_upload p)))) (p_fileId p))]"
  using assms by (simp_all add: finish_chunk_def Let_def respond_def finished_def)

lemma finish_chunk_None: "map_of (pending st) rid = None \<Longrightarrow> finish_chunk rid st = st"
  by (simp add: finish_chunk_def)

lemma frame_finish_chunk:
  assumes r: "rids_ok st"
  shows "frame st (finish_chunk rid st)"
proof (cases "map_of (pending st) rid")
  case None
  then show ?thesis by (simp add: finish_chunk_None frame_refl)
next
  case (Some p)
  note ff = finish_chunk_fields [OF Some]
  have lt: "rid < next_rid st" using r Some by (simp add: rids_ok_def)
  have an: "\<And>q. q \<noteq> rid \<Longrightarrow> answers (finish_chunk rid st) q = answers st q"
    by (simp add: answers_def ff(7))
  show ?thesis
    unfolding frame_def
  proof (intro conjI allI impI)
    fix k a assume "map_of (uploadTracker (finish_chunk rid st)) k = Some a"
    then show "map_of (uploadTracker st) k = Some a"
      by (simp add: ff(6) map_of_delete_Some split: if_splits)
  next
    assume "distinct (map fst (uploadTracker st))"
    then show "distinct (map fst (uploadTracker (finish_chunk rid st)))"
      by (simp add: ff(6) distinct_delete)
  next
    show "length (objs (finish_chunk rid st)) = length (objs st)" by (simp add: ff(1))
  next
    fix a assume "a < length (objs st)"
    then show "same_upload (objs st ! a) (objs (finish_chunk rid st) ! a)"
      by (cases "a = p_upload p") (simp_all add: ff(1) same_upload_def)
  next
    show "length (streams (finish_chunk rid st)) = length (streams st)" by (rule ff(3))
  next
    show "length (timers (finish_chunk rid st)) = length (timers st)" by (rule ff(4))
  next
    fix q p' assume "map_of (pending (finish_chunk rid st)) q = Some p'"
    then show "\<exists>p. map_of (pending st) q = Some p \<and> same_request p p'"
      by (simp add: ff(2) map_of_delete_Some same_request_def)
  next
    fix q p' assume "map_of (pending (finish_chunk rid st)) q = Some p'"
    then have "q \<noteq> rid" by (simp add: ff(2) map_of_delete_Some)
    then show "answers (finish_chunk rid st) q = answers st q" by (rule an)
  next
    show "next_rid (finish_chunk rid st) = next_rid st" by (rule ff(5))
  next
    fix q assume "next_rid st \<le> q"
    then have "q \<noteq> rid" using lt by simp
    then show "answers (finish_chunk rid st) q = answers st q" by (rule an)
  qed
qed

lemma set_add_length: "length (set_add x xs) \<le> Suc (length xs)"
  by (simp add: set_add_def)

lemma sizes_ok_finish_chunk:
  assumes w: "wf_core st"
  shows "sizes_ok (finish_chunk rid st)"
proof (cases "map_of (pending st) rid")
  case None
  then show ?thesis using w by (simp add: finish_chunk_None wf_core_def)
next
  case (Some p)
  note ff = finish_chunk_fields [OF Some]
  have refs: "refs_ok st" and keys: "keys_ok st" and sizes: "sizes_ok st"
    using w by (simp_all add: wf_core_def)
  show ?thesis
    unfolding sizes_ok_def
  proof (intro allI impI)
    fix k a n
    assume t': "map_of (uploadTracker (finish_chunk rid st)) k = Some a"
      and tot': "totalChunks (objs (finish_chunk rid st) ! a) = Num n" and n: "1 \<le> n"
    have t: "map_of (uploadTracker st) k = Some a"
      using t' by (simp add: ff(6) map_of_delete_Some split: if_splits)
    have la: "a < length (objs st)" using refs t unfolding refs_ok_def by blast
    show "int (length (receivedChunks (objs (finish_chunk rid st) ! a))) < n"
    proof (cases "a = p_upload p")
      case False
      then have eq: "objs (finish_chunk rid st) ! a = objs st ! a" by (simp add: ff(1))
      have "int (length (receivedChunks (objs st ! a))) < n"
        using sizes t tot' n unfolding sizes_ok_def eq by blast
      then show ?thesis by (simp add: eq)
    next
      case True
      have kf: "k = p_fileId p" using keys Some t True unfolding keys_ok_def by blast
      have nf: "\<not> finished st p"
        using t' kf by (auto simp: ff(6) map_of_delete_Some split: if_splits)
      have tot: "totalChunks (objs st ! a) = Num n" using tot' True la by (simp add: ff(1))
      have old: "int (length (receivedChunks (objs st ! a))) < n"
        using sizes t tot n unfolding sizes_ok_def by blast
      have new: "receivedChunks (objs (finish_chunk rid st) ! a) =
          set_add (p_chunkIndex p) (receivedChunks (objs st ! a))"
        using True la by (simp add: ff(1))
      have "int (length (set_add (p_chunkIndex p) (receivedChunks (objs st ! a)))) \<noteq> n"
        using nf tot True by (simp add: finished_def)
      moreover have "int (length (set_add (p_chunkIndex p) (receivedChunks (objs st ! a)))) \<le> n"
        using old set_add_length [of "p_chunkIndex p" "receivedChunks (objs st ! a)"] by linarith
      ultimately show ?thesis by (simp add: new)
    qed
  qed
qed

lemma wf_frame:
  assumes w: "wf_core st" and f: "frame st st'" and s: "sizes_ok st'"
  shows "wf_core st'"
  using w refs_ok_frame [OF _ f] rids_ok_frame [OF _ f] keys_ok_frame [OF _ f] s
  by (simp add: wf_core_def)

lemma wf_finish_chunk: "wf_core st \<Longrightarrow> wf_core (finish_chunk rid st)"
  by (rule wf_frame [OF _ frame_finish_chunk sizes_ok_finish_chunk]) (simp_all add: wf_core_def)

lemma wf_fold_finish_chunk: "wf_core st \<Longrightarrow> wf_core (fold finish_chunk rids st)"
  by (induction rids arbitrary: st) (simp_all add: wf_finish_chunk)

lemma frame_fold_finish_chunk: "rids_ok st \<Longrightarrow> frame st (fold finish_chunk rids st)"
proof (induction rids arbitrary: st)
  case Nil
  then show ?case by (simp add: frame_refl)
next
  case (Cons r rids)
  have f: "frame st (finish_chunk r st)" using Cons.prems by (rule frame_finish_chunk)
  have "rids_ok (finish_chunk r st)" using Cons.prems f by (rule rids_ok_frame)
  then have "frame (finish_chunk r st) (fold finish_chunk rids (finish_chunk r st))" by (rule Cons.IH)
  then show ?case using f by (simp add: frame_trans)
qed

lemma frame_simple:
  assumes "\<And>k a. map_of (uploadTracker st') k = Some a \<Longrightarrow> map_of (uploadTracker st) k = Some a"
    and "distinct (map fst (uploadTracker st)) \<Longrightarrow> distinct (map fst (uploadTracker st'))"
    and "objs st' = objs st" and "length (streams st') = length (streams st)"
    and "length (timers st') = length (timers st)"
    and "pending st' = pending st" and "responses st' = responses st" and "next_rid st' = next_rid st"
  shows "frame st st'"
  unfolding frame_def using assms
  by (auto simp: same_upload_def same_request_def answers_def)

lemma sizes_ok_simple:
  assumes "sizes_ok st" 
    and "\<And>k a. map_of (uploadTracker st') k = Some a \<Longrightarrow> map_of (uploadTracker st) k = Some a"
    and "objs st' = objs st"
  shows "sizes_ok st'"
  using assms unfolding sizes_ok_def by metis

lemma wf_simple:
  assumes "wf_core st"
    and "\<And>k a. map_of (uploadTracker st') k = Some a \<Longrightarrow> map_of (uploadTracker st) k = Some a"
    and "distinct (map fst (uploadTracker st)) \<Longrightarrow> distinct (map fst (uploadTracker st'))"
    and "objs st' = objs st" and "length (streams st') = length (streams st)"
    and "length (timers st') = length (timers st)"
    and "pending st' = pending st" and "responses st' = responses st" and "next_rid st' = next_rid st"
  shows "wf_core st'"
proof (rule wf_frame [OF assms(1)])
  show "frame st st'" by (rule frame_simple) (use assms in auto)
  show "sizes_ok st'" by (rule sizes_ok_simple [of st]) (use assms in \<open>auto simp: wf_core_def\<close>)
qed

lemma wf_on_timeout: "wf_core st \<Longrightarrow> wf_core (on_timeout tid now st)"
  by (rule wf_simple [of st])
     (auto simp: on_timeout_def Let_def map_of_delete_Some distinct_delete split: option.splits if_splits)

lemma wf_sweep_entry: "wf_core st \<Longrightarrow> wf_core (sweep_entry now st e)"
  by (rule wf_simple [of st])
     (auto simp: sweep_entry_def Let_def map_of_delete_Some distinct_delete split: option.splits if_splits)

lemma wf_foldl_sweep_entry: "wf_core st \<Longrightarrow> wf_core (foldl (sweep_entry now) st es)"
  by (induction es arbitrary: st) (simp_all add: wf_sweep_entry)

lemma wf_sweep: "wf_core st \<Longrightarrow> wf_core (sweep now st)"
  by (simp add: sweep_def wf_foldl_sweep_entry)

lemma frame_on_data: "frame st (on_data rid b st)"
proof (cases "map_of (pending st) rid")
  case None
  then show ?thesis by (simp add: on_data_def frame_refl)
next
  case (Some p)
  show ?thesis
  proof (cases "p_phase p = Receiving")
    case False
    then show ?thesis using Some by (simp add: on_data_def frame_refl)
  next
    case True
    have eq: "on_data rid b st = st\<lparr>pending := AList.update rid (p\<lparr>dataBuffer := dataBuffer p @ b\<rparr>) (pending st)\<rparr>"
      using Some True by (simp add: on_data_def)
    show ?thesis
      unfolding eq frame_def using Some
      by (auto simp: same_upload_def same_request_def answers_def map_of_update_Some split: if_splits)
  qed
qed

lemma objs_on_data: "objs (on_data rid b st) = objs st"
  and tracker_on_data: "uploadTracker (on_data rid b st) = uploadTracker st"
  by (simp_all add: on_data_def split: option.splits)

lemma wf_on_data: "wf_core st \<Longrightarrow> wf_core (on_data rid b st)"
  by (rule wf_frame [OF _ frame_on_data], assumption, rule sizes_ok_simple [of st])
     (simp_all add: wf_core_def objs_on_data tracker_on_data)

lemma frame_on_error: "rids_ok st \<Longrightarrow> frame st (on_error rid st)"
proof (cases "map_of (pending st) rid")
  case None
  then show ?thesis by (simp add: on_error_def frame_refl)
next
  case (Some p)
  assume r: "rids_ok st"
  then have lt: "rid < next_rid st" using Some by (simp add: rids_ok_def)
  show ?thesis
  proof (cases "p_phase p = Receiving")
    case False
    then show ?thesis using Some by (simp add: on_error_def frame_refl)
  next
    case True
    have eq: "on_error rid st = st\<lparr>pending := AList.delete rid (pending st),
        responses := responses st @ [(rid, ChunkError)]\<rparr>"
      using Some True by (simp add: on_error_def respond_def)
    show ?thesis
      unfolding eq frame_def using lt
      by (auto simp: same_upload_def same_request_def answers_def map_of_delete_Some)
  qed
qed

lemma objs_on_error: "objs (on_error rid st) = objs st"
  and tracker_on_error: "uploadTracker (on_error rid st) = uploadTracker st"
  by (simp_all add: on_error_def respond_def split: option.splits)

lemma wf_on_error: "wf_core st \<Longrightarrow> wf_core (on_error rid st)"
  by (rule wf_frame [OF _ frame_on_error], assumption, simp add: wf_core_def,
      rule sizes_ok_simple [of st])
     (simp_all add: wf_core_def objs_on_error tracker_on_error)

lemma on_end_eq:
  assumes "map_of (pending st) rid = Some p" and "p_phase p = Receiving"
  shows "on_end rid st =
     (if can_continue p st then finish_chunk rid (written rid p st)
      else (written rid p st)\<lparr>pending := AList.delete rid (pending st) @ [(rid, p\<lparr>p_phase := AwaitDrain\<rparr>)]\<rparr>)"
  using assms by (simp add: on_end_def written_def can_continue_def Let_def split_def)

lemma on_end_skip:
  "map_of (pending st) rid = None \<or> (\<exists>p. map_of (pending st) rid = Some p \<and> p_phase p \<noteq> Receiving)
     \<Longrightarrow> on_end rid st = st"
  by (auto simp: on_end_def)

lemma written_fields:
  "objs (written rid p st) = objs st" "uploadTracker (written rid p st) = uploadTracker st"
  "pending (written rid p st) = pending st" "responses (written rid p st) = responses st"
  "next_rid (written rid p st) = next_rid st" "timers (written rid p st) = timers st"
  "length (streams (written rid p st)) = length (streams st)"
  by (simp_all add: written_def Let_def)

lemma wf_written: "wf_core st \<Longrightarrow> wf_core (written rid p st)"
  by (rule wf_simple [of st]) (simp_all add: written_fields)

lemma wf_await:
  assumes w: "wf_core st" and p: "map_of (pending st) rid = Some p"
  shows "wf_core (st\<lparr>pending := AList.delete rid (pending st) @ [(rid, p\<lparr>p_phase := AwaitDrain\<rparr>)]\<rparr>)"
proof (rule wf_frame [OF w])
  show "frame st (st\<lparr>pending := AList.delete rid (pending st) @ [(rid, p\<lparr>p_phase := AwaitDrain\<rparr>)]\<rparr>)"
    unfolding frame_def using p
    by (auto simp: same_upload_def same_request_def answers_def map_of_snoc_Some map_of_delete_Some
          split: if_splits)
  show "sizes_ok (st\<lparr>pending := AList.delete rid (pending st) @ [(rid, p\<lparr>p_phase := AwaitDrain\<rparr>)]\<rparr>)"
    using w by (simp add: wf_core_def sizes_ok_def)
qed

lemma wf_on_end: "wf_core st \<Longrightarrow> wf_core (on_end rid st)"
proof (cases "\<exists>p. map_of (pending st) rid = Some p \<and> p_phase p = Receiving")
  case False
  assume "wf_core st"
  moreover have "on_end rid st = st" using False by (intro on_end_skip) (cases "map_of (pending st) rid", auto)
  ultimately show ?thesis by simp
next
  case True
  assume w: "wf_core st"
  from True obtain p where p: "map_of (pending st) rid = Some p" "p_phase p = Receiving" by blast
  have ww: "wf_core (written rid p st)" using w by (rule wf_written)
  have pw: "map_of (pending (written rid p st)) rid = Some p" using p by (simp add: written_fields)
  show ?thesis
    using wf_finish_chunk [OF ww, of rid] wf_await [OF ww pw]
    by (simp add: on_end_eq [OF p] written_fields)
qed

lemma wf_on_flush: "wf_core st \<Longrightarrow> wf_core (on_flush sid st)"
proof -
  assume w: "wf_core st"
  have a: "\<And>s. wf_core (st\<lparr>streams := (streams st)[sid := s]\<rparr>)"
    by (rule wf_simple [OF w]) simp_all
  show ?thesis
    by (simp add: on_flush_def Let_def w a wf_fold_finish_chunk)
qed

lemma start_upload_fields:
  "objs (start_upload now fid fn n tp st) = objs st @ [\<lparr>finalPath = path_join tp fn, receivedChunks = [],
               writeStream = length (streams st), totalChunks = n,
               createdAt = now, timeout = length (timers st)\<rparr>]"
  "streams (start_upload now fid fn n tp st) = streams st @ [\<lparr>spath = path_join tp fn, pos = 0, buffered = 0, needDrain = False, ending = False,
        autoClose = False, closed = False\<rparr>]"
  "timers (start_upload now fid fn n tp st) = timers st @ [\<lparr>t_fileId = fid, t_armed = now, t_active = True\<rparr>]"
  "uploadTracker (start_upload now fid fn n tp st) = AList.update fid (length (objs st)) (uploadTracker st)"
  "pending (start_upload now fid fn n tp st) = pending st"
  "responses (start_upload now fid fn n tp st) = responses st"
  "next_rid (start_upload now fid fn n tp st) = next_rid st"
  "disk (start_upload now fid fn n tp st) = snd (createWriteStream (path_join tp fn) False (ensure_dir tp (disk st)))"
  by (simp_all add: start_upload_def Let_def createWriteStream_def)

lemma wf_start_upload:
  assumes w: "wf_core st"
  shows "wf_core (start_upload now fid fn n tp st)"
proof -
  let ?st = "start_upload now fid fn n tp st"
  note sf = start_upload_fields [of now fid fn n tp st]
  have refs: "refs_ok st" and rids: "rids_ok st" and keys: "keys_ok st" and sizes: "sizes_ok st"
    using w by (simp_all add: wf_core_def)
  have old: "\<And>k a. map_of (uploadTracker st) k = Some a \<Longrightarrow> a < length (objs st)"
    using refs unfolding refs_ok_def by blast
  have 1: "refs_ok ?st"
    using refs unfolding refs_ok_def sf
    by (auto simp: map_of_update_Some nth_append less_Suc_eq split: if_splits)
  have 2: "rids_ok ?st"
    using rids unfolding rids_ok_def sf by (simp add: answers_cong [of ?st st] sf)
  have 3: "keys_ok ?st"
    unfolding keys_ok_def sf
  proof (intro conjI allI impI)
    show "distinct (map fst (AList.update fid (length (objs st)) (uploadTracker st)))"
      using keys by (simp add: keys_ok_def distinct_update)
  next
    fix k k' a
    assume "map_of (AList.update fid (length (objs st)) (uploadTracker st)) k = Some a"
      and "map_of (AList.update fid (length (objs st)) (uploadTracker st)) k' = Some a"
    then show "k = k'"
      using keys old unfolding keys_ok_def
      by (auto simp: map_of_update_Some split: if_splits)
  next
    fix r p k
    assume a: "map_of (pending st) r = Some p"
      and b: "map_of (AList.update fid (length (objs st)) (uploadTracker st)) k = Some (p_upload p)"
    have "p_upload p < length (objs st)" using refs a unfolding refs_ok_def by blast
    then have "map_of (uploadTracker st) k = Some (p_upload p)"
      using b by (auto simp: map_of_update_Some split: if_splits)
    then show "k = p_fileId p" using keys a unfolding keys_ok_def by blast
  qed
  have 4: "sizes_ok ?st"
    unfolding sizes_ok_def sf
  proof (intro allI impI)
    fix k a m
    assume a: "map_of (AList.update fid (length (objs st)) (uploadTracker st)) k = Some a"
      and b: "totalChunks ((objs st @ [\<lparr>finalPath = path_join tp fn, receivedChunks = [],
               writeStream = length (streams st), totalChunks = n,
               createdAt = now, timeout = length (timers st)\<rparr>]) ! a) = Num m" and c: "1 \<le> m"
    show "int (length (receivedChunks ((objs st @ [\<lparr>finalPath = path_join tp fn, receivedChunks = [],
               writeStream = length (streams st), totalChunks = n,
               createdAt = now, timeout = length (timers st)\<rparr>]) ! a))) < m"
    proof (cases "a = length (objs st)")
      case True
      then show ?thesis using c by simp
    next
      case False
      then have t: "map_of (uploadTracker st) k = Some a"
        using a by (auto simp: map_of_update_Some split: if_splits)
      then have "a < length (objs st)" by (rule old)
      then show ?thesis using sizes t b c unfolding sizes_ok_def by (auto simp: nth_append)
    qed
  qed
  show ?thesis using 1 2 3 4 by (simp add: wf_core_def)
qed

lemma wf_fresh_rid:
  assumes w: "wf_core st"
  shows "wf_core (st\<lparr>next_rid := Suc (next_rid st)\<rparr>)"
    and "fresh (next_rid st) (st\<lparr>next_rid := Suc (next_rid st)\<rparr>)"
proof -
  have rids: "rids_ok st" using w by (simp add: wf_core_def)
  have n: "map_of (pending st) (next_rid st) = None"
  proof (cases "map_of (pending st) (next_rid st)")
    case (Some p)
    then have "next_rid st < next_rid st" using rids unfolding rids_ok_def by blast
    then show ?thesis by simp
  qed simp
  have a: "answers st (next_rid st) = []" using rids unfolding rids_ok_def by simp
  show "fresh (next_rid st) (st\<lparr>next_rid := Suc (next_rid st)\<rparr>)"
    using n a by (simp add: fresh_def answers_def)
  have "rids_ok (st\<lparr>next_rid := Suc (next_rid st)\<rparr>)"
    using rids unfolding rids_ok_def by (auto simp: answers_def less_Suc_eq)
  then show "wf_core (st\<lparr>next_rid := Suc (next_rid st)\<rparr>)"
    using w by (simp add: wf_core_def refs_ok_def keys_ok_def sizes_ok_def)
qed

lemma wf_disk: "wf_core st \<Longrightarrow> wf_core (st\<lparr>disk := d\<rparr>)"
  by (rule wf_simple [of st]) simp_all

lemma fresh_disk: "fresh rid (st\<lparr>disk := d\<rparr>) = fresh rid st"
  by (simp add: fresh_def answers_def)

lemma fresh_start_upload: "fresh rid (start_upload now fid fn n tp st) = fresh rid st"
  by (simp add: fresh_def answers_def start_upload_fields)

lemma wf_respond:
  assumes w: "wf_core st" and f: "fresh rid st"
  shows "wf_core (respond rid r st)"
proof -
  have "rids_ok (respond rid r st)"
    using w f unfolding wf_core_def rids_ok_def fresh_def
    by (auto simp: respond_def answers_def)
  then show ?thesis
    using w by (simp add: wf_core_def refs_ok_def keys_ok_def sizes_ok_def respond_def)
qed

lemma wf_add_pending:
  assumes w: "wf_core st" and f: "fresh rid st" and t: "map_of (uploadTracker st) (p_fileId p) = Some (p_upload p)"
  shows "wf_core (st\<lparr>pending := pending st @ [(rid, p)]\<rparr>)"
proof -
  let ?st = "st\<lparr>pending := pending st @ [(rid, p)]\<rparr>"
  have refs: "refs_ok st" and rids: "rids_ok st" and keys: "keys_ok st" and sizes: "sizes_ok st"
    using w by (simp_all add: wf_core_def)
  have m: "\<And>r q. map_of (pending st @ [(rid, p)]) r = Some q \<longleftrightarrow>
       (map_of (pending st) r = Some q \<or> (r = rid \<and> q = p))"
    using f unfolding map_of_snoc_Some fresh_def by auto
  have 1: "refs_ok ?st"
    using refs t unfolding refs_ok_def by (auto simp: m simp del: map_of_append)
  have 2: "rids_ok ?st"
    using rids f unfolding rids_ok_def fresh_def by (auto simp: m answers_def simp del: map_of_append)
  have 3: "keys_ok ?st"
    using keys t unfolding keys_ok_def by (auto simp: m simp del: map_of_append)
  have 4: "sizes_ok ?st" using sizes by (simp add: sizes_ok_def)
  show ?thesis using 1 2 3 4 by (simp add: wf_core_def)
qed

lemma wf_resolve_upload:
  assumes w: "wf_core st" and f: "fresh rid st"
  shows "wf_core (resolve_upload now rid fid fn ci n tp td st)"
proof (cases "map_of (uploadTracker st) fid")
  case None
  show ?thesis
    using None w f
    by (simp add: resolve_upload_def wf_respond wf_start_upload fresh_start_upload)
next
  case (Some a)
  show ?thesis
    using Some w f
    by (simp add: resolve_upload_def wf_respond wf_add_pending)
qed

lemma wf_upload_chunk_request:
  assumes w: "wf_core st"
  shows "wf_core (upload_chunk_request P now req st)"
proof -
  note a = wf_fresh_rid [OF w]
  show ?thesis
  proof (cases "decodeURIComponent P (header_or (x_file_name req) [])")
    case None
    then show ?thesis
      by (simp add: upload_chunk_request_def Let_def wf_respond a)
  next
    case (Some fn)
    then show ?thesis
      by (simp add: upload_chunk_request_def Let_def wf_respond wf_resolve_upload wf_start_upload
          wf_disk a fresh_disk fresh_start_upload)
  qed
qed

lemma wf_step: "wf_core st \<Longrightarrow> wf_core (step P st ev)"
  by (cases ev)
     (simp_all add: wf_upload_chunk_request wf_on_data wf_on_end wf_on_error wf_on_flush
        wf_on_timeout wf_sweep)

lemma wf_run: "wf_core st \<Longrightarrow> wf_core (run P st evs)"
  unfolding run_def by (induction evs arbitrary: st) (simp_all add: wf_step)

lemma wf_init_server: "wf_core (init_server P d)"
  by (simp add: wf_core_def refs_ok_def rids_ok_def keys_ok_def sizes_ok_def init_server_def answers_def)












section \<open>A chunk for an unknown upload (C4)\<close>









section \<open>Received chunks against the declared count (C7)\<close>

lemma ex_run_total_0:
  "uploadTracker (run ex_platform ex_server
       [ChunkHeaders 0 (ex_chunk ''0'' ''0'' ''A''), ChunkData 0 [1], ChunkEnd 0]) = [(''A'', 0)]"
  "objs (run ex_platform ex_server
       [ChunkHeaders 0 (ex_chunk ''0'' ''0'' ''A''), ChunkData 0 [1], ChunkEnd 0]) =
     [\<lparr>finalPath = [''out'', ''f.bin''], receivedChunks = [Num 0], writeStream = 0,
       totalChunks = Num 0, createdAt = 0, timeout = 0\<rparr>]"
  "responses (run ex_platform ex_server
       [ChunkHeaders 0 (ex_chunk ''0'' ''0'' ''A''), ChunkData 0 [1], ChunkEnd 0]) =
     [(0, ChunkReceived (Num 1) (Num 0) 1 ''A'')]"
  by code_simp+

text \<open>
  C7, as stated, fails: the header \<^verbatim>\<open>x-total-chunks: 0\<close> is parsed without a check, the
  first chunk is written and marked, 1 is not equal to 0, and the upload stays in the tracker
  with one received chunk against a declared count of 0.
\<close>

theorem C7_size_exceeds_total:
  "map_of (uploadTracker (run ex_platform ex_server
       [ChunkHeaders 0 (ex_chunk ''0'' ''0'' ''A''), ChunkData 0 [1], ChunkEnd 0])) ''A'' = Some 0 \<and>
   totalChunks (objs (run ex_platform ex_server
       [ChunkHeaders 0 (ex_chunk ''0'' ''0'' ''A''), ChunkData 0 [1], ChunkEnd 0]) ! 0) = Num 0 \<and>
   length (receivedChunks (objs (run ex_platform ex_server
       [ChunkHeaders 0 (ex_chunk ''0'' ''0'' ''A''), ChunkData 0 [1], ChunkEnd 0]) ! 0)) = 1"
  by (simp add: ex_run_total_0)

lemma tracked_below_total:
  assumes "map_of (uploadTracker (run P (init_server P d) evs)) k = Some a"
    and "totalChunks (objs (run P (init_server P d) evs) ! a) = Num n" and "1 \<le> n"
  shows "int (length (receivedChunks (objs (run P (init_server P d) evs) ! a))) < n"
proof -
  have "wf_core (run P (init_server P d) evs)" by (rule wf_run [OF wf_init_server])
  then have "sizes_ok (run P (init_server P d) evs)" by (simp add: wf_core_def)
  then show ?thesis using assms unfolding sizes_ok_def by blast
qed

text \<open>
  C7, amended: in every state the server reaches from its start, by any sequence of request,
  stream, timer and sweep events on any disk, an upload in the tracker whose declared count is
  an integer of at least 1 has received no more chunks than that count (it has received fewer:
  \<open>tracked_below_total\<close>).
\<close>

theorem C7_received_within_total:
  assumes "map_of (uploadTracker (run P (init_server P d) evs)) k = Some a"
    and "totalChunks (objs (run P (init_server P d) evs) ! a) = Num n" and "1 \<le> n"
  shows "int (length (receivedChunks (objs (run P (init_server P d) evs) ! a))) \<le> n"
  using tracked_below_total [OF assms] by simp

lemma ex_run_one_chunk:
  "uploadTracker (run ex_platform (init_server ex_platform ex_disk)
       [ChunkHeaders 0 (ex_chunk ''0'' ''2'' ''A''), ChunkData 0 [1], ChunkEnd 0]) = [(''A'', 0)]"
  "objs (run ex_platform (init_server ex_platform ex_disk)
       [ChunkHeaders 0 (ex_chunk ''0'' ''2'' ''A''), ChunkData 0 [1], ChunkEnd 0]) =
     [\<lparr>finalPath = [''out'', ''f.bin''], receivedChunks = [Num 0], writeStream = 0,
       totalChunks = Num 2, createdAt = 0, timeout = 0\<rparr>]"
  by code_simp+

theorem C7_received_within_total_witness:
  "int (length (receivedChunks (objs (run ex_platform (init_server ex_platform ex_disk)
       [ChunkHeaders 0 (ex_chunk ''0'' ''2'' ''A''), ChunkData 0 [1], ChunkEnd 0]) ! 0))) \<le> 2"
proof -
  have 1: "map_of (uploadTracker (run ex_platform (init_server ex_platform ex_disk)
       [ChunkHeaders 0 (ex_chunk ''0'' ''2'' ''A''), ChunkData 0 [1], ChunkEnd 0])) ''A'' = Some 0"
    by (simp add: ex_run_one_chunk)
  have 2: "totalChunks (objs (run ex_platform (init_server ex_platform ex_disk)
       [ChunkHeaders 0 (ex_chunk ''0'' ''2'' ''A''), ChunkData 0 [1], ChunkEnd 0]) ! 0) = Num 2"
    by (simp add: ex_run_one_chunk)
  have 3: "(1::int) \<le> 2" by simp
  show ?thesis using C7_received_within_total [OF 1 2 3] .
qed

section \<open>Assembling stored chunks (C5, C6)\<close>

declare verify_chunks.simps [simp del]

lemma verify_chunks_Some:
  "verify_chunks d t n i = Some j \<Longrightarrow>
     i \<le> j \<and> js_less (Num (int j)) n \<and> \<not> existsSync d (t @ [chunk_name j]) \<and>
     (\<forall>k. i \<le> k \<and> k < j \<longrightarrow> existsSync d (t @ [chunk_name k]))"
proof (induction d t n i rule: verify_chunks.induct)
  case (1 d t n i)
  show ?case
  proof (cases "js_less (Num (int i)) n \<and> existsSync d (t @ [chunk_name i])")
    case True
    then have "verify_chunks d t n (i + 1) = Some j"
      using "1.prems" by (simp add: verify_chunks.simps [of d t n i])
    then have ih: "i + 1 \<le> j \<and> js_less (Num (int j)) n \<and> \<not> existsSync d (t @ [chunk_name j]) \<and>
       (\<forall>k. i + 1 \<le> k \<and> k < j \<longrightarrow> existsSync d (t @ [chunk_name k]))"
      using "1.IH" True by simp
    have "\<And>k. i \<le> k \<Longrightarrow> k < j \<Longrightarrow> existsSync d (t @ [chunk_name k])"
    proof -
      fix k assume "i \<le> k" "k < j"
      then show "existsSync d (t @ [chunk_name k])"
        using ih True by (cases "k = i") auto
    qed
    then show ?thesis using ih by auto
  next
    case False
    then show ?thesis
      using "1.prems" by (auto simp: verify_chunks.simps [of d t n i] split: if_splits)
  qed
qed

lemma verify_chunks_None:
  "verify_chunks d t n i = None \<Longrightarrow> i \<le> k \<Longrightarrow> js_less (Num (int k)) n \<Longrightarrow> existsSync d (t @ [chunk_name k])"
proof (induction d t n i rule: verify_chunks.induct)
  case (1 d t n i)
  have li: "js_less (Num (int i)) n" using "1.prems"(2,3) by (cases n) auto
  have ei: "existsSync d (t @ [chunk_name i])"
    using "1.prems"(1) li by (auto simp: verify_chunks.simps [of d t n i] split: if_splits)
  show ?case
  proof (cases "k = i")
    case True
    then show ?thesis using ei by simp
  next
    case False
    have "verify_chunks d t n (i + 1) = None"
      using "1.prems"(1) li ei by (simp add: verify_chunks.simps [of d t n i])
    then show ?thesis using "1.IH" li ei "1.prems"(2,3) False by simp
  qed
qed


text \<open>
  C5, as stated, fails when the staging directory of the identifier does not exist: no index
  has a chunk file there, and the request is answered 404 (session not found), not
  \<open>MissingChunk\<close>.
\<close>

theorem C5_no_staging_directory:
  "\<not> existsSync ex_disk (tempDir_of ex_platform ''A'' @ [chunk_name 0])
   \<and> \<not> existsSync ex_disk (tempDir_of ex_platform ''A'' @ [chunk_name 1])
   \<and> \<not> existsSync ex_disk (tempDir_of ex_platform ''A'' @ [chunk_name 2])
   \<and> combine_chunks_request ex_platform (ex_combine ''3'') ex_disk
        = Some (StagingNotFound, ex_disk, None, [])
   \<and> combine_status StagingNotFound = 404"
  by (simp add: combine_chunks_request_def ex_combine_def ex_disk_def existsSync_def parse_defs
      ex_paths Let_def)

text \<open>
  C5, amended: for every store-and-assemble request that carries a file name and an
  identifier, declares an integer count T, and whose staging directory exists, if for some
  index below T nothing exists at the path of its chunk, the answer is \<open>MissingChunk j\<close>
  (status 400), where \<open>j\<close> is the smallest index at whose chunk path nothing exists; the disk
  is as it was, no output stream was opened and no operation was performed: no byte is
  written.
\<close>

theorem C5_missing_chunk:
  assumes "header_or (c_file_name req) [] \<noteq> []"
    and "header_or (c_file_id req) [] \<noteq> []"
    and "parseInt (header_or (c_total_chunks req) ''0'') = Num T"
    and "tempDir = tempDir_of P (header_or (c_file_id req) [])"
    and "existsSync d tempDir"
    and "int i < T"
    and "\<not> existsSync d (path_join tempDir (chunk_name i))"
  shows "\<exists>j. combine_chunks_request P req d = Some (MissingChunk j, d, None, [])
           \<and> combine_status (MissingChunk j) = 400
           \<and> j \<le> i
           \<and> \<not> existsSync d (path_join tempDir (chunk_name j))
           \<and> (\<forall>k<j. existsSync d (path_join tempDir (chunk_name k)))"
proof -
  have T: "T \<noteq> 0" using assms(6) by auto
  have ni: "\<not> existsSync d (tempDir @ [chunk_name i])" using assms(7) by simp
  have "verify_chunks d tempDir (Num T) 0 \<noteq> None"
  proof
    assume "verify_chunks d tempDir (Num T) 0 = None"
    then have "existsSync d (tempDir @ [chunk_name i])"
      by (rule verify_chunks_None) (use assms(6) in simp_all)
    then show False using ni by simp
  qed
  then obtain j where j: "verify_chunks d tempDir (Num T) 0 = Some j" by blast
  note v = verify_chunks_Some [OF j]
  have ji: "j \<le> i"
  proof (rule ccontr)
    assume "\<not> j \<le> i"
    then have "i < j" by simp
    then have "existsSync d (tempDir @ [chunk_name i])" using v by simp
    then show False using ni by simp
  qed
  have "combine_chunks_request P req d = Some (MissingChunk j, d, None, [])"
    using assms(1-3,5) T j by (simp add: combine_chunks_request_def Let_def assms(4) [symmetric])
  then show ?thesis using v ji by auto
qed

lemma chunk_names:
  "chunk_name 0 = ''chunk-0'' \<and> chunk_name (Suc 0) = ''chunk-1'' \<and> chunk_name 2 = ''chunk-2''"
  by code_simp

lemma ex_combine_fields:
  "header_or (c_file_name (ex_combine n)) [] = ''f.bin''"
  "header_or (c_file_id (ex_combine n)) [] = ''A''"
  "c_query_path (ex_combine n) = Some ''/out''"
  "tmpdir ex_platform = [''tmp'']"
  "c_total_chunks (ex_combine n) = Some n"
  by (simp_all add: ex_combine_def ex_platform_def header_or_def)

lemma ex_staged_chunks:
  "existsSync ex_staged [''tmp'', ''file-server-chunks'', ''A'']"
  "dirs ex_staged [''tmp'', ''file-server-chunks'', ''A'']"
  "files ex_staged [''tmp'', ''file-server-chunks'', ''A'', chunk_name 0] = Some [1, 2]"
  "files ex_staged [''tmp'', ''file-server-chunks'', ''A'', chunk_name (Suc 0)] = Some [3]"
  "files ex_staged [''tmp'', ''file-server-chunks'', ''A'', chunk_name 2] = None"
  "\<not> dirs ex_staged [''tmp'', ''file-server-chunks'', ''A'', chunk_name 2]"
  by (simp_all add: ex_staged_def existsSync_def chunk_names)

text \<open>
  With chunks 0, 1 and 3 stored and a declared count of 4, the answer names chunk 2.
\<close>

theorem C5_missing_chunk_witness:
  "combine_chunks_request ex_platform (ex_combine ''4'') ex_staged
     = Some (MissingChunk 2, ex_staged, None, [])"
proof -
  have 1: "header_or (c_file_name (ex_combine ''4'')) [] \<noteq> []"
    and 2: "header_or (c_file_id (ex_combine ''4'')) [] \<noteq> []"
    by (simp_all add: ex_combine_fields)
  have 3: "parseInt (header_or (c_total_chunks (ex_combine ''4'')) ''0'') = Num 4"
    by (simp add: ex_combine_def parse_defs)
  have 4: "[''tmp'', ''file-server-chunks'', ''A''] =
      tempDir_of ex_platform (header_or (c_file_id (ex_combine ''4'')) [])"
    by (simp add: ex_combine_fields ex_paths)
  have 5: "existsSync ex_staged [''tmp'', ''file-server-chunks'', ''A'']"
    by (simp add: ex_staged_chunks)
  have 6: "int 2 < 4" by simp
  have 7: "\<not> existsSync ex_staged (path_join [''tmp'', ''file-server-chunks'', ''A''] (chunk_name 2))"
    by (simp add: ex_staged_chunks existsSync_def)
  from C5_missing_chunk [OF 1 2 3 4 5 6 7] obtain j where
    j: "combine_chunks_request ex_platform (ex_combine ''4'') ex_staged
          = Some (MissingChunk j, ex_staged, None, [])"
      "j \<le> 2"
      "\<not> existsSync ex_staged ([''tmp'', ''file-server-chunks'', ''A''] @ [chunk_name j])"
    by auto
  have "j \<noteq> 0"
  proof
    assume "j = 0"
    then show False using j(3) by (simp add: ex_staged_chunks existsSync_def)
  qed
  moreover have "j \<noteq> Suc 0"
  proof
    assume "j = Suc 0"
    then show False using j(3) by (simp add: ex_staged_chunks existsSync_def)
  qed
  ultimately have "j = 2" using j(2) by simp
  then show ?thesis using j(1) by simp
qed














section \<open>Retries and known identifiers (C2, C3)\<close>

lemma ex_after_two_fields:
  "uploadTracker ex_after_two = [(''A'', 0)]"
  "objs ex_after_two =
     [\<lparr>finalPath = [''out'', ''f.bin''], receivedChunks = [Num 0, Num 1], writeStream = 0,
       totalChunks = Num 3, createdAt = 0, timeout = 0\<rparr>]"
  "files (disk ex_after_two) [''out'', ''f.bin''] = Some [1, 2, 3]"
  "streams ex_after_two =
     [\<lparr>spath = [''out'', ''f.bin''], pos = 3, buffered = 3, needDrain = False, ending = False,
        autoClose = False, closed = False\<rparr>]"
  "timers ex_after_two = [\<lparr>t_fileId = ''A'', t_armed = 0, t_active = True\<rparr>]"
  by code_simp+

text \<open>
  A request whose chunk index is not 0 leaves the tracker, the stored uploads, the streams, the timers and every file as they are, whatever else it does.
\<close>

lemma later_chunk_keeps_uploads:
  assumes "parseInt (header_or (x_chunk_index req) ''0'') \<noteq> Num 0"
  shows "uploadTracker (upload_chunk_request P now req st) = uploadTracker st
       \<and> objs (upload_chunk_request P now req st) = objs st
       \<and> streams (upload_chunk_request P now req st) = streams st
       \<and> timers (upload_chunk_request P now req st) = timers st
       \<and> files (disk (upload_chunk_request P now req st)) = files (disk st)"
  using assms
  by (simp add: upload_chunk_request_def resolve_upload_def Let_def respond_def files_ensure_dir
      split: option.splits)

text \<open>
  A second submission of an index other than 0 that is in the set of its upload is answered \<open>AlreadyReceived\<close>; nothing is written and nothing is left pending.
\<close>

lemma retry_already_received:
  assumes "decodeURIComponent P (header_or (x_file_name req) []) = Some fileName"
    and "fileName \<noteq> []"
    and "parseInt (header_or (x_chunk_index req) ''0'') \<noteq> Num 0"
    and "map_of (uploadTracker st) (header_or (x_file_id req) (toString now)) = Some a"
    and "parseInt (header_or (x_chunk_index req) ''0'') \<in> set (receivedChunks (objs st ! a))"
  shows "responses (upload_chunk_request P now req st) =
           responses st @ [(next_rid st,
              AlreadyReceived (js_succ (parseInt (header_or (x_chunk_index req) ''0'')))
                 (parseInt (header_or (x_total_chunks req) ''1'')))]
       \<and> pending (upload_chunk_request P now req st) = pending st
       \<and> objs (upload_chunk_request P now req st) = objs st
       \<and> files (disk (upload_chunk_request P now req st)) = files (disk st)"
  using assms
  by (simp add: upload_chunk_request_def resolve_upload_def Let_def respond_def files_ensure_dir)

text \<open>
  C2 fails at index 0. Chunks 0 and 1 of three were written and the file holds three bytes. Chunk 0 is submitted again with the same body: line 146 starts the upload anew before the check of line 225, so the set is empty, the answer is \<open>ChunkReceived\<close> with count 1 and not \<open>AlreadyReceived\<close>, the body is written again, and the file, opened again with flags \<^verbatim>\<open>'w'\<close>, holds two bytes.
\<close>

theorem C2_retry_of_chunk_0:
  "Num 0 \<in> set (receivedChunks (objs ex_after_two ! 0)) \<and>
   files (disk ex_after_two) [''out'', ''f.bin''] = Some [1, 2, 3] \<and>
   answers (run ex_platform ex_after_two
      [ChunkHeaders 1 (ex_chunk ''0'' ''3'' ''A''), ChunkData 2 [1, 2], ChunkEnd 2]) 2
     = [ChunkReceived (Num 1) (Num 3) 1 ''A''] \<and>
   files (disk (run ex_platform ex_after_two
      [ChunkHeaders 1 (ex_chunk ''0'' ''3'' ''A''), ChunkData 2 [1, 2], ChunkEnd 2])) [''out'', ''f.bin'']
     = Some [1, 2]"
  by code_simp

text \<open>
  C3 fails at index 0. The identifier is in the tracker with two chunks received. When the headers of another chunk 0 for that identifier arrive, line 156 sets a new entry: the tracker maps the identifier to a new object with an empty set, a new stream and a new timer, and the file is truncated.
\<close>

theorem C3_chunk_0_replaces_session:
  "map_of (uploadTracker ex_after_two) ''A'' = Some 0 \<and>
   receivedChunks (objs ex_after_two ! 0) = [Num 0, Num 1] \<and>
   map_of (uploadTracker (step ex_platform ex_after_two (ChunkHeaders 1 (ex_chunk ''0'' ''3'' ''A'')))) ''A''
     = Some 1 \<and>
   objs (step ex_platform ex_after_two (ChunkHeaders 1 (ex_chunk ''0'' ''3'' ''A''))) ! 1 =
     \<lparr>finalPath = [''out'', ''f.bin''], receivedChunks = [], writeStream = 1,
       totalChunks = Num 3, createdAt = 1, timeout = 1\<rparr> \<and>
   streams (step ex_platform ex_after_two (ChunkHeaders 1 (ex_chunk ''0'' ''3'' ''A''))) ! 1 =
     \<lparr>spath = [''out'', ''f.bin''], pos = 0, buffered = 0, needDrain = False, ending = False,
        autoClose = False, closed = False\<rparr> \<and>
   files (disk (step ex_platform ex_after_two (ChunkHeaders 1 (ex_chunk ''0'' ''3'' ''A''))))
     [''out'', ''f.bin''] = Some []"
  by code_simp

section \<open>An upload submitted in index order (C1)\<close>
























section \<open>Missing headers (C10)\<close>










section \<open>Waiting for the stream to drain (C8)\<close>



































section \<open>Expiry of uploads (C9)\<close>
































subsection \<open>The streams keep their descriptors\<close>



















subsection \<open>The sweep and the timer\<close>











end
